theory Spec2Isabelle
  imports Main "HOL-Library.Multiset" "HOL-Library.Product_Lexorder"
begin

section \<open>Tiles (Tile.h)\<close>

text \<open>
  \<^verbatim>\<open>enum class Shape { Circle, Square, Diamond, Fourpoint, Clover, Astericks };\<close>
  \<^verbatim>\<open>enum class Color { Red, Orange, Yellow, Green, Blue, Purple };\<close>
  The constructors are listed in the order of the enum declarations.
\<close>

datatype Shape = Circle | Square | Diamond | Fourpoint | Clover | Astericks

datatype Color = Red | Orange | Yellow | Green | Blue | Purple

text \<open>The underlying integer value of each enumerator (declaration order, from 0).\<close>

fun shapeValue :: "Shape \<Rightarrow> nat" where
  "shapeValue Circle = 0"
| "shapeValue Square = 1"
| "shapeValue Diamond = 2"
| "shapeValue Fourpoint = 3"
| "shapeValue Clover = 4"
| "shapeValue Astericks = 5"

fun colorValue :: "Color \<Rightarrow> nat" where
  "colorValue Red = 0"
| "colorValue Orange = 1"
| "colorValue Yellow = 2"
| "colorValue Green = 3"
| "colorValue Blue = 4"
| "colorValue Purple = 5"

record Tile =
  shape :: Shape
  color :: Color

section \<open>The sparse board (Board.h, Board.cpp)\<close>

text \<open>
  \<^verbatim>\<open>using Coord = std::pair<int, int>;\<close> Coordinates are only compared, never computed
  with, so the components are integers; \<open>std::pair\<close> is ordered lexicographically.

  A \<^verbatim>\<open>std::map<K, V>\<close> is modelled by its sequence of entries in iteration order,
  that is by ascending key. \<open>mapFind\<close> is \<^verbatim>\<open>find\<close> (\<open>None\<close> for \<^verbatim>\<open>end()\<close>), \<open>mapAssign\<close> is
  \<^verbatim>\<open>m[k] = v\<close>: it overwrites the entry of an existing key and inserts a new key at its
  place in the order.
\<close>

type_synonym Coord = "int \<times> int"

type_synonym TileMap = "(Coord \<times> Tile) list"

fun mapFind :: "'k \<Rightarrow> ('k \<times> 'v) list \<Rightarrow> 'v option" where
  "mapFind k [] = None"
| "mapFind k ((k', v) # m) = (if k = k' then Some v else mapFind k m)"

fun mapAssign :: "'k::linorder \<Rightarrow> 'v \<Rightarrow> ('k \<times> 'v) list \<Rightarrow> ('k \<times> 'v) list" where
  "mapAssign k v [] = [(k, v)]"
| "mapAssign k v ((k', v') # m) =
     (if k < k' then (k, v) # (k', v') # m
      else if k = k' then (k, v) # m
      else (k', v') # mapAssign k v m)"

definition mapKeys :: "('k \<times> 'v) list \<Rightarrow> 'k set" where
  "mapKeys m = fst ` set m"

text \<open>The representation invariant of a \<^verbatim>\<open>std::map\<close>: keys strictly ascending.\<close>

definition mapOrdered :: "('k::linorder \<times> 'v) list \<Rightarrow> bool" where
  "mapOrdered m = sorted_wrt (<) (map fst m)"

record Board =
  tiles :: TileMap

definition placeTile :: "Coord \<Rightarrow> Tile \<Rightarrow> Board \<Rightarrow> Board" where
  "placeTile c tile b = b\<lparr>tiles := mapAssign c tile (tiles b)\<rparr>"

definition isOccupied :: "Board \<Rightarrow> Coord \<Rightarrow> bool" where
  "isOccupied b c = (mapFind c (tiles b) \<noteq> None)"

section \<open>The game state (Game.h)\<close>

text \<open>
  The members of \<^verbatim>\<open>Game\<close> that hold game state. \<open>tileBag\<close> is a \<^verbatim>\<open>std::vector<Tile>\<close> whose
  back is the last element of the list; \<open>playerHand\<close> is a vector of optional tiles;
  \<open>selectedHandIndex\<close> is \<open>-1\<close> when nothing is selected. Textures and the window are
  not game state. The random engine is represented by the draws it yields, which
  \<open>initTileBag\<close> takes as an argument.
\<close>

record Game =
  board :: Board
  tileBag :: "Tile list"
  playerHand :: "Tile option list"
  selectedHandIndex :: int
  stagedTiles :: TileMap

subsection \<open>Game::initTileBag\<close>

text \<open>
  The three nested loops, each \<^verbatim>\<open>push_back\<close> appending at the end of the vector. The
  order of the shapes is the one of the initializer list in the source.
\<close>

definition bagShapes :: "Shape list" where
  "bagShapes = [Circle, Square, Diamond, Astericks, Clover, Fourpoint]"

definition bagColors :: "Color list" where
  "bagColors = [Red, Orange, Yellow, Green, Blue, Purple]"

definition pushCopies :: "Shape \<Rightarrow> Color \<Rightarrow> Tile list \<Rightarrow> Tile list" where
  "pushCopies s c bag = foldl (\<lambda>b copy. b @ [\<lparr>shape = s, color = c\<rparr>]) bag [0..<3]"

definition pushColors :: "Shape \<Rightarrow> Tile list \<Rightarrow> Tile list" where
  "pushColors s bag = foldl (\<lambda>b c. pushCopies s c b) bag bagColors"

definition filledBag :: "Tile list" where
  "filledBag = foldl (\<lambda>b s. pushColors s b) [] bagShapes"

text \<open>
  Modelled from the spec: \<^verbatim>\<open>std::shuffle\<close> belongs to the C++ standard library, not to
  the repository. Section 4.1 of the specification describes it as a Fisher-Yates
  shuffle: for \<open>i\<close> from the last index down to 1, the element at \<open>i\<close> is swapped with the
  one at a random index in \<open>0..i\<close>. The draw of the engine used at index \<open>i\<close> is \<open>rnd i\<close>.
\<close>

definition swapAt :: "nat \<Rightarrow> nat \<Rightarrow> 'a list \<Rightarrow> 'a list" where
  "swapAt i j xs = xs[i := xs ! j, j := xs ! i]"

fun shuffleFrom :: "(nat \<Rightarrow> nat) \<Rightarrow> nat \<Rightarrow> 'a list \<Rightarrow> 'a list" where
  "shuffleFrom rnd 0 xs = xs"
| "shuffleFrom rnd (Suc i) xs = shuffleFrom rnd i (swapAt (Suc i) (rnd (Suc i) mod Suc (Suc i)) xs)"

definition shuffle :: "(nat \<Rightarrow> nat) \<Rightarrow> 'a list \<Rightarrow> 'a list" where
  "shuffle rnd xs = shuffleFrom rnd (length xs - 1) xs"

definition initTileBag :: "(nat \<Rightarrow> nat) \<Rightarrow> Game \<Rightarrow> Game" where
  "initTileBag rnd g = g\<lparr>tileBag := shuffle rnd filledBag\<rparr>"

subsection \<open>Game::drawTileFromBag\<close>

definition drawTileFromBag :: "Game \<Rightarrow> Tile \<times> Game" where
  "drawTileFromBag g =
     (if tileBag g = [] then (\<lparr>shape = Circle, color = Red\<rparr>, g)
      else (last (tileBag g), g\<lparr>tileBag := butlast (tileBag g)\<rparr>))"

subsection \<open>Game::refillHand\<close>

text \<open>\<^verbatim>\<open>if (playerHand.size() != 6) playerHand.assign(6, std::nullopt);\<close>\<close>

definition ensureHandSize :: "Game \<Rightarrow> Game" where
  "ensureHandSize g =
     (if length (playerHand g) \<noteq> 6 then g\<lparr>playerHand := replicate 6 None\<rparr> else g)"

text \<open>The loop over the slot index \<open>i\<close>, from its current value up to the size of the hand.\<close>

function refillLoop :: "nat \<Rightarrow> Game \<Rightarrow> Game" where
  "refillLoop i g =
     (if i < length (playerHand g) then
        (if playerHand g ! i = None \<and> tileBag g \<noteq> [] then
           refillLoop (Suc i)
             ((snd (drawTileFromBag g))
                \<lparr>playerHand := (playerHand (snd (drawTileFromBag g)))[i := Some (fst (drawTileFromBag g))]\<rparr>)
         else refillLoop (Suc i) g)
      else g)"
  by pat_completeness auto
termination
  by (relation "measure (\<lambda>(i, g). length (playerHand g) - i)")
     (auto simp: drawTileFromBag_def)

definition refillHand :: "Game \<Rightarrow> Game" where
  "refillHand g = refillLoop 0 (ensureHandSize g)"

subsection \<open>Game::resetUnconfirmedTiles\<close>

text \<open>
  The inner loop: the first slot from index \<open>i\<close> on that has no value receives the tile;
  the flag is \<^verbatim>\<open>placedInHand\<close>.
\<close>

function placeInHand :: "nat \<Rightarrow> Tile \<Rightarrow> Tile option list \<Rightarrow> Tile option list \<times> bool" where
  "placeInHand i t h =
     (if i < length h then
        (if h ! i = None then (h[i := Some t], True) else placeInHand (Suc i) t h)
      else (h, False))"
  by pat_completeness auto
termination
  by (relation "measure (\<lambda>(i, t, h). length h - i)") auto

text \<open>The body of the outer loop for one staged tile.\<close>

definition returnStaged :: "Tile \<Rightarrow> Game \<Rightarrow> Game" where
  "returnStaged t g =
     (let g1 = ensureHandSize g;
          (h, placedInHand) = placeInHand 0 t (playerHand g1);
          g2 = g1\<lparr>playerHand := h\<rparr>
      in if \<not> placedInHand then g2\<lparr>tileBag := tileBag g2 @ [t]\<rparr> else g2)"

definition resetUnconfirmedTiles :: "Game \<Rightarrow> Game" where
  "resetUnconfirmedTiles g =
     (foldl (\<lambda>g' p. returnStaged (snd p) g') g (stagedTiles g))
       \<lparr>stagedTiles := [], selectedHandIndex := - 1\<rparr>"

subsection \<open>Game::run: the handlers of a left click\<close>

text \<open>The "Confirm Move" button.\<close>

definition commitTurn :: "Game \<Rightarrow> Game" where
  "commitTurn g =
     (let g1 = g\<lparr>board := foldl (\<lambda>b p. placeTile (fst p) (snd p) b) (board g) (stagedTiles g)\<rparr>;
          g2 = g1\<lparr>stagedTiles := []\<rparr>;
          g3 = refillHand g2
      in g3\<lparr>selectedHandIndex := - 1\<rparr>)"

text \<open>
  A click on hand slot \<open>i\<close>. The loop of the source offers the slots 0 to 5 only; a click
  in the band of the hand that hits no slot changes nothing. \<^verbatim>\<open>playerHand[i]\<close> on a hand
  shorter than \<open>i + 1\<close> is undefined behaviour in C++: the result \<open>None\<close>.
\<close>

definition selectSlot :: "nat \<Rightarrow> Game \<Rightarrow> Game option" where
  "selectSlot i g =
     (if i < 6 then
        (if i < length (playerHand g) then
           Some (if playerHand g ! i \<noteq> None then
                   (if selectedHandIndex g = int i then g\<lparr>selectedHandIndex := - 1\<rparr>
                    else g\<lparr>selectedHandIndex := int i\<rparr>)
                 else g)
         else None)
      else Some g)"

text \<open>A click on the board at the cell \<open>c\<close> (the result of \<^verbatim>\<open>worldToBoard\<close>).\<close>

definition placeAt :: "Coord \<Rightarrow> Game \<Rightarrow> Game" where
  "placeAt c g =
     (if 0 \<le> selectedHandIndex g \<and> selectedHandIndex g < int (length (playerHand g))
         \<and> playerHand g ! nat (selectedHandIndex g) \<noteq> None then
        (if \<not> isOccupied (board g) c \<and> mapFind c (stagedTiles g) = None then
           g\<lparr>stagedTiles := mapAssign c (the (playerHand g ! nat (selectedHandIndex g))) (stagedTiles g),
             playerHand := (playerHand g)[nat (selectedHandIndex g) := None],
             selectedHandIndex := - 1\<rparr>
         else g)
      else g)"

subsection \<open>Sessions\<close>

text \<open>
  A default-constructed \<^verbatim>\<open>Game\<close>, and the prologue of \<^verbatim>\<open>run\<close>:
  \<^verbatim>\<open>initTileBag(); playerHand.assign(6, std::nullopt); refillHand();\<close>
\<close>

definition emptyGame :: Game where
  "emptyGame = \<lparr>board = \<lparr>tiles = []\<rparr>, tileBag = [], playerHand = [],
                selectedHandIndex = - 1, stagedTiles = []\<rparr>"

definition startGame :: "(nat \<Rightarrow> nat) \<Rightarrow> Game" where
  "startGame rnd = refillHand ((initTileBag rnd emptyGame)\<lparr>playerHand := replicate 6 None\<rparr>)"

datatype Event = SelectSlot nat | PlaceAt Coord | CommitTurn | ResetTurn

fun step :: "Event \<Rightarrow> Game \<Rightarrow> Game option" where
  "step (SelectSlot i) g = selectSlot i g"
| "step (PlaceAt c) g = Some (placeAt c g)"
| "step CommitTurn g = Some (commitTurn g)"
| "step ResetTurn g = Some (resetUnconfirmedTiles g)"

fun exec :: "Event list \<Rightarrow> Game \<Rightarrow> Game option" where
  "exec [] g = Some g"
| "exec (e # es) g = (case step e g of None \<Rightarrow> None | Some g' \<Rightarrow> exec es g')"

inductive reachable :: "Game \<Rightarrow> bool" where
  start: "reachable (startGame rnd)"
| step: "reachable g \<Longrightarrow> step e g = Some g' \<Longrightarrow> reachable g'"

text \<open>The quantities of the conservation law.\<close>

definition occupiedSlots :: "Tile option list \<Rightarrow> nat" where
  "occupiedSlots h = length (filter (\<lambda>x. x \<noteq> None) h)"

definition handTiles :: "Tile option list \<Rightarrow> Tile list" where
  "handTiles h = concat (map (\<lambda>x. case x of None \<Rightarrow> [] | Some t \<Rightarrow> [t]) h)"

definition tileCount :: "Game \<Rightarrow> nat" where
  "tileCount g = length (tileBag g) + occupiedSlots (playerHand g)
                 + length (stagedTiles g) + length (tiles (board g))"

subsection \<open>The reset as the specification words it\<close>

text \<open>
  Section 4.4 of the specification, \<open>resetTurn\<close>: each staged tile is returned "to the first
  empty hand slot in ascending index order"; "if no empty hand slot exists when a staged
  tile needs to be returned", the tile goes to the supply. These definitions follow that
  wording, for comparison with \<open>resetUnconfirmedTiles\<close>, which follows the source.
\<close>

definition firstEmptySlot :: "Tile option list \<Rightarrow> nat option" where
  "firstEmptySlot h = List.find (\<lambda>i. h ! i = None) [0..<length h]"

definition specReturnTile :: "Tile \<Rightarrow> Game \<Rightarrow> Game" where
  "specReturnTile t g =
     (case firstEmptySlot (playerHand g) of
        Some j \<Rightarrow> g\<lparr>playerHand := (playerHand g)[j := Some t]\<rparr>
      | None \<Rightarrow> g\<lparr>tileBag := tileBag g @ [t]\<rparr>)"

definition specResetTurn :: "Game \<Rightarrow> Game" where
  "specResetTurn g =
     (foldl (\<lambda>g' t. specReturnTile t g') g (map snd (stagedTiles g)))
       \<lparr>stagedTiles := [], selectedHandIndex := - 1\<rparr>"

subsection \<open>The invariant of a session\<close>

definition invariant :: "Game \<Rightarrow> bool" where
  "invariant g \<longleftrightarrow>
     length (playerHand g) = 6
     \<and> mapOrdered (stagedTiles g)
     \<and> mapOrdered (tiles (board g))
     \<and> mapKeys (stagedTiles g) \<inter> mapKeys (tiles (board g)) = {}
     \<and> tileCount g = 108"

subsection \<open>Sample states\<close>

text \<open>
  A session: the draws of the engine, a first turn that is committed, and a second turn
  left uncommitted with two staged tiles, two rejected placements and a selection.
\<close>

definition sampleRnd :: "nat \<Rightarrow> nat" where
  "sampleRnd i = 2 ^ (i mod 11) + i * 13"

definition sampleFirstTurn :: "Event list" where
  "sampleFirstTurn = [SelectSlot 1, PlaceAt (0, 0), CommitTurn]"

definition sampleSecondTurn :: "Event list" where
  "sampleSecondTurn =
     [SelectSlot 0, PlaceAt (0, 1), SelectSlot 4, PlaceAt (0, 0), PlaceAt (0, 1),
      PlaceAt (- 1, 0), SelectSlot 2]"

text \<open>
  A state in the middle of a turn, late in a game: two tiles left in the bag, three empty
  slots, slot 1 selected, two staged tiles. \<open>fullHandGame\<close> is the same state with no
  empty slot, as no sequence of clicks produces it.
\<close>

definition lateGame :: Game where
  "lateGame =
     \<lparr>board = \<lparr>tiles = [((0, 0), \<lparr>shape = Square, color = Blue\<rparr>)]\<rparr>,
      tileBag = [\<lparr>shape = Clover, color = Green\<rparr>, \<lparr>shape = Diamond, color = Red\<rparr>],
      playerHand = [None, Some \<lparr>shape = Circle, color = Red\<rparr>, None, None,
                    Some \<lparr>shape = Square, color = Red\<rparr>, Some \<lparr>shape = Circle, color = Blue\<rparr>],
      selectedHandIndex = 1,
      stagedTiles = [((0, 1), \<lparr>shape = Circle, color = Yellow\<rparr>),
                     ((1, 0), \<lparr>shape = Clover, color = Purple\<rparr>)]\<rparr>"

definition fullHandGame :: Game where
  "fullHandGame = lateGame\<lparr>playerHand := replicate 6 (Some \<lparr>shape = Circle, color = Red\<rparr>)\<rparr>"

section \<open>Lemmas\<close>

declare refillLoop.simps [simp del]

declare placeInHand.simps [simp del]

subsection \<open>The bag\<close>

lemma filledBag_eval: "filledBag = concat (map (\<lambda>s. concat (map (\<lambda>c. replicate 3 \<lparr>shape = s, color = c\<rparr>) bagColors)) bagShapes)"
  by (simp add: filledBag_def pushColors_def pushCopies_def bagShapes_def bagColors_def numeral_3_eq_3)

lemma mset_swapAt: "i < length xs \<Longrightarrow> j < length xs \<Longrightarrow> mset (swapAt i j xs) = mset xs"
  unfolding swapAt_def by (simp add: mset_swap)

lemma length_swapAt [simp]: "length (swapAt i j xs) = length xs"
  by (simp add: swapAt_def)

lemma mset_shuffleFrom: "i < length xs \<Longrightarrow> mset (shuffleFrom rnd i xs) = mset xs"
proof (induction i arbitrary: xs)
  case 0
  then show ?case by simp
next
  case (Suc i)
  have j: "rnd (Suc i) mod Suc (Suc i) < length xs"
    using Suc.prems by (meson less_trans_Suc mod_less_divisor not_less_eq zero_less_Suc less_Suc_eq_le le_less_trans)
  show ?case using Suc.prems j by (simp add: Suc.IH mset_swapAt)
qed

lemma mset_shuffle: "mset (shuffle rnd xs) = mset xs"
  by (cases xs) (simp_all add: shuffle_def mset_shuffleFrom)

lemma count_filledBag: "count (mset filledBag) t = 3"
proof -
  obtain s c where t: "t = \<lparr>shape = s, color = c\<rparr>" by (cases t) auto
  show ?thesis unfolding t filledBag_eval bagShapes_def bagColors_def
    by (cases s; cases c; simp)
qed

lemma length_filledBag: "length filledBag = 108"
  by (simp add: filledBag_eval bagShapes_def bagColors_def)

lemma card_filledBag: "card (set filledBag) = 36"
  by (simp add: filledBag_eval bagShapes_def bagColors_def)

subsection \<open>Maps\<close>

lemma mapKeys_Nil [simp]: "mapKeys [] = {}"
  by (simp add: mapKeys_def)

lemma mapKeys_Cons [simp]: "mapKeys ((k, v) # m) = insert k (mapKeys m)"
  by (simp add: mapKeys_def)

lemma mapFind_mapAssign:
  "mapFind c (mapAssign k v m) = (if c = k then Some v else mapFind c m)"
  by (induction k v m rule: mapAssign.induct) auto

lemma mapFind_None_iff: "mapFind k m = None \<longleftrightarrow> k \<notin> mapKeys m"
  by (induction k m rule: mapFind.induct) auto

lemma mapKeys_mapAssign: "mapKeys (mapAssign k v m) = insert k (mapKeys m)"
  by (induction k v m rule: mapAssign.induct) auto

lemma length_mapAssign: "k \<notin> mapKeys m \<Longrightarrow> length (mapAssign k v m) = Suc (length m)"
  by (induction k v m rule: mapAssign.induct) auto

lemma mapOrdered_Nil [simp]: "mapOrdered []"
  by (simp add: mapOrdered_def)

lemma mapOrdered_Cons [simp]:
  "mapOrdered ((k, v) # m) \<longleftrightarrow> (\<forall>k' \<in> mapKeys m. k < k') \<and> mapOrdered m"
  by (auto simp: mapOrdered_def mapKeys_def)

lemma mapOrdered_mapAssign: "mapOrdered m \<Longrightarrow> mapOrdered (mapAssign k v m)"
  by (induction k v m rule: mapAssign.induct) (auto simp: mapKeys_mapAssign)

lemma mapOrdered_distinct: "mapOrdered m \<Longrightarrow> distinct (map fst m)"
  by (simp add: mapOrdered_def strict_sorted_iff)

lemma mapKeys_placeAll:
  "mapKeys (tiles (foldl (\<lambda>b p. placeTile (fst p) (snd p) b) b st)) = mapKeys (tiles b) \<union> mapKeys st"
  by (induction st arbitrary: b) (auto simp: placeTile_def mapKeys_mapAssign)

lemma mapOrdered_placeAll:
  "mapOrdered (tiles b) \<Longrightarrow> mapOrdered (tiles (foldl (\<lambda>b p. placeTile (fst p) (snd p) b) b st))"
  by (induction st arbitrary: b) (auto simp: placeTile_def mapOrdered_mapAssign)

lemma mapFind_placeAll:
  fixes st :: TileMap
  shows "mapOrdered st \<Longrightarrow>
   mapFind c (tiles (foldl (\<lambda>b p. placeTile (fst p) (snd p) b) b st)) =
     (case mapFind c st of Some t \<Rightarrow> Some t | None \<Rightarrow> mapFind c (tiles b))"
proof (induction st arbitrary: b)
  case Nil
  then show ?case by simp
next
  case (Cons p st)
  obtain k v where p: "p = (k, v)" by (cases p)
  from Cons.prems have o: "mapOrdered st" and k: "k \<notin> mapKeys st"
    unfolding p by auto
  from k have "mapFind k st = None" by (simp add: mapFind_None_iff)
  then show ?case using Cons.IH [OF o] unfolding p
    by (auto simp: placeTile_def mapFind_mapAssign split: option.splits)
qed

lemma length_placeAll:
  "mapOrdered st \<Longrightarrow> mapKeys st \<inter> mapKeys (tiles b) = {} \<Longrightarrow>
   length (tiles (foldl (\<lambda>b p. placeTile (fst p) (snd p) b) b st)) = length (tiles b) + length st"
proof (induction st arbitrary: b)
  case Nil
  then show ?case by simp
next
  case (Cons p st)
  obtain k v where p: "p = (k, v)" by (cases p)
  from Cons.prems have o: "mapOrdered st" and k: "k \<notin> mapKeys st" and kb: "k \<notin> mapKeys (tiles b)"
    and d: "mapKeys st \<inter> mapKeys (tiles b) = {}"
    unfolding p by auto
  have "mapKeys st \<inter> mapKeys (tiles (placeTile k v b)) = {}"
    using k d by (auto simp: placeTile_def mapKeys_mapAssign)
  from Cons.IH [OF o this] show ?case unfolding p
    using kb by (simp add: placeTile_def length_mapAssign)
qed

subsection \<open>Refilling and returning\<close>

lemma occupiedSlots_fill:
  "i < length h \<Longrightarrow> h ! i = None \<Longrightarrow> occupiedSlots (h[i := Some t]) = Suc (occupiedSlots h)"
proof (induction h arbitrary: i)
  case Nil
  then show ?case by simp
next
  case (Cons x h)
  then show ?case by (cases i) (auto simp: occupiedSlots_def)
qed

lemma occupiedSlots_clear:
  "i < length h \<Longrightarrow> h ! i \<noteq> None \<Longrightarrow> Suc (occupiedSlots (h[i := None])) = occupiedSlots h"
proof (induction h arbitrary: i)
  case Nil
  then show ?case by simp
next
  case (Cons x h)
  then show ?case by (cases i) (auto simp: occupiedSlots_def)
qed

lemma handTiles_fill:
  "i < length h \<Longrightarrow> h ! i = None \<Longrightarrow>
   mset (handTiles (h[i := Some t])) = add_mset t (mset (handTiles h))"
proof (induction h arbitrary: i)
  case Nil
  then show ?case by simp
next
  case (Cons x h)
  then show ?case by (cases i) (auto simp: handTiles_def)
qed

lemma occupiedSlots_replicate [simp]: "occupiedSlots (replicate n None) = 0"
  by (simp add: occupiedSlots_def)

lemma refillLoop_draw:
  "i < length (playerHand g) \<Longrightarrow> playerHand g ! i = None \<Longrightarrow> tileBag g \<noteq> [] \<Longrightarrow>
   refillLoop i g = refillLoop (Suc i)
     (g\<lparr>tileBag := butlast (tileBag g), playerHand := (playerHand g)[i := Some (last (tileBag g))]\<rparr>)"
  by (subst refillLoop.simps) (simp add: drawTileFromBag_def)

lemma refillLoop_skip:
  "i < length (playerHand g) \<Longrightarrow> playerHand g ! i \<noteq> None \<or> tileBag g = [] \<Longrightarrow>
   refillLoop i g = refillLoop (Suc i) g"
  by (subst refillLoop.simps) auto

lemma refillLoop_done: "\<not> i < length (playerHand g) \<Longrightarrow> refillLoop i g = g"
  by (subst refillLoop.simps) simp

lemma refillLoop_cases [case_names draw skip stop]:
  fixes P :: "nat \<Rightarrow> Game \<Rightarrow> bool"
  assumes draw: "\<And>i g. i < length (playerHand g) \<Longrightarrow> playerHand g ! i = None \<Longrightarrow> tileBag g \<noteq> [] \<Longrightarrow>
      P (Suc i) (g\<lparr>tileBag := butlast (tileBag g), playerHand := (playerHand g)[i := Some (last (tileBag g))]\<rparr>)
      \<Longrightarrow> P i g"
    and skip: "\<And>i g. i < length (playerHand g) \<Longrightarrow> playerHand g ! i \<noteq> None \<or> tileBag g = [] \<Longrightarrow> P (Suc i) g \<Longrightarrow> P i g"
    and stop: "\<And>i g. \<not> i < length (playerHand g) \<Longrightarrow> P i g"
  shows "P i g"
proof (induction i g rule: refillLoop.induct)
  case (1 i g)
  show ?case
  proof (cases "i < length (playerHand g)")
    case False
    then show ?thesis by (rule stop)
  next
    case less: True
    show ?thesis
    proof (cases "playerHand g ! i = None \<and> tileBag g \<noteq> []")
      case True
      have d: "(snd (drawTileFromBag g))
                \<lparr>playerHand := (playerHand (snd (drawTileFromBag g)))[i := Some (fst (drawTileFromBag g))]\<rparr>
             = g\<lparr>tileBag := butlast (tileBag g), playerHand := (playerHand g)[i := Some (last (tileBag g))]\<rparr>"
        using True by (simp add: drawTileFromBag_def)
      have "P (Suc i) (g\<lparr>tileBag := butlast (tileBag g), playerHand := (playerHand g)[i := Some (last (tileBag g))]\<rparr>)"
        using 1(1) [OF less True] unfolding d .
      then show ?thesis using less True by (simp add: draw)
    next
      case False
      have "P (Suc i) g" by (rule 1(2) [OF less False])
      then show ?thesis using less False by (simp add: skip)
    qed
  qed
qed

lemma refillLoop_frame:
  "board (refillLoop i g) = board g \<and> stagedTiles (refillLoop i g) = stagedTiles g
   \<and> selectedHandIndex (refillLoop i g) = selectedHandIndex g
   \<and> length (playerHand (refillLoop i g)) = length (playerHand g)"
proof (induction i g rule: refillLoop_cases)
  case (draw i g)
  then show ?case by (simp add: refillLoop_draw)
next
  case (skip i g)
  then show ?case by (simp add: refillLoop_skip)
next
  case (stop i g)
  then show ?case by (simp add: refillLoop_done)
qed

lemma refillLoop_keep:
  "j < i \<or> playerHand g ! j \<noteq> None \<Longrightarrow> playerHand (refillLoop i g) ! j = playerHand g ! j"
proof (induction i g rule: refillLoop_cases)
  case (draw i g)
  from draw.prems draw.hyps have "j \<noteq> i" by auto
  with draw show ?case by (auto simp: refillLoop_draw)
next
  case (skip i g)
  then show ?case by (auto simp: refillLoop_skip)
next
  case (stop i g)
  then show ?case by (simp add: refillLoop_done)
qed

lemma refillLoop_count:
  "occupiedSlots (playerHand (refillLoop i g)) + length (tileBag (refillLoop i g))
     = occupiedSlots (playerHand g) + length (tileBag g)"
proof (induction i g rule: refillLoop_cases)
  case (draw i g)
  then show ?case by (simp add: refillLoop_draw occupiedSlots_fill)
next
  case (skip i g)
  then show ?case by (simp add: refillLoop_skip)
next
  case (stop i g)
  then show ?case by (simp add: refillLoop_done)
qed

lemma mset_butlast_last: "xs \<noteq> [] \<Longrightarrow> add_mset (last xs) (mset (butlast xs)) = mset xs"
  by (cases xs rule: rev_cases) auto

lemma refillLoop_mset:
  "mset (handTiles (playerHand (refillLoop i g))) + mset (tileBag (refillLoop i g))
     = mset (handTiles (playerHand g)) + mset (tileBag g)"
proof (induction i g rule: refillLoop_cases)
  case (draw i g)
  then show ?case by (simp add: refillLoop_draw handTiles_fill mset_butlast_last)
next
  case (skip i g)
  then show ?case by (simp add: refillLoop_skip)
next
  case (stop i g)
  then show ?case by (simp add: refillLoop_done)
qed

lemma refillLoop_prefix: "\<exists>n. tileBag (refillLoop i g) = take n (tileBag g)"
proof (induction i g rule: refillLoop_cases)
  case (draw i g)
  then obtain n where "tileBag (refillLoop i g) = take n (butlast (tileBag g))"
    by (auto simp: refillLoop_draw)
  then have "tileBag (refillLoop i g) = take (min n (length (tileBag g) - 1)) (tileBag g)"
    by (simp add: butlast_conv_take)
  then show ?case by blast
next
  case (skip i g)
  then show ?case by (simp add: refillLoop_skip)
next
  case (stop i g)
  have "tileBag g = take (length (tileBag g)) (tileBag g)" by simp
  then show ?case unfolding refillLoop_done [OF stop] by blast
qed

lemma refillLoop_empty: "tileBag g = [] \<Longrightarrow> tileBag (refillLoop i g) = []"
  using refillLoop_prefix [of i g] by auto

lemma refillLoop_filled:
  "(\<forall>j. i \<le> j \<and> j < length (playerHand g) \<longrightarrow> playerHand (refillLoop i g) ! j \<noteq> None)
   \<or> tileBag (refillLoop i g) = []"
proof (induction i g rule: refillLoop_cases)
  case (draw i g)
  let ?g = "g\<lparr>tileBag := butlast (tileBag g), playerHand := (playerHand g)[i := Some (last (tileBag g))]\<rparr>"
  have eq: "refillLoop i g = refillLoop (Suc i) ?g"
    using draw.hyps by (simp add: refillLoop_draw)
  have "playerHand (refillLoop (Suc i) ?g) ! i = playerHand ?g ! i"
    by (rule refillLoop_keep) simp
  then have i: "playerHand (refillLoop i g) ! i \<noteq> None"
    using draw.hyps eq by simp
  from draw.IH consider
    (full) "\<forall>j. Suc i \<le> j \<and> j < length (playerHand g) \<longrightarrow> playerHand (refillLoop i g) ! j \<noteq> None"
    | (empty) "tileBag (refillLoop i g) = []"
    unfolding eq by auto
  then show ?case
  proof cases
    case full
    have "playerHand (refillLoop i g) ! j \<noteq> None" if "i \<le> j" "j < length (playerHand g)" for j
      using that full i by (cases "j = i") auto
    then show ?thesis by blast
  next
    case empty
    then show ?thesis by simp
  qed
next
  case (skip i g)
  have eq: "refillLoop i g = refillLoop (Suc i) g"
    using skip.hyps by (simp add: refillLoop_skip)
  show ?case
  proof (cases "tileBag g = []")
    case True
    then show ?thesis by (simp add: refillLoop_empty)
  next
    case False
    with skip.hyps have "playerHand g ! i \<noteq> None" by simp
    then have i: "playerHand (refillLoop i g) ! i \<noteq> None" by (simp add: refillLoop_keep)
    from skip.IH consider
      (full) "\<forall>j. Suc i \<le> j \<and> j < length (playerHand g) \<longrightarrow> playerHand (refillLoop i g) ! j \<noteq> None"
      | (empty) "tileBag (refillLoop i g) = []"
      unfolding eq by auto
    then show ?thesis
    proof cases
      case full
      have "playerHand (refillLoop i g) ! j \<noteq> None" if "i \<le> j" "j < length (playerHand g)" for j
        using that full i by (cases "j = i") auto
      then show ?thesis by blast
    next
      case empty
      then show ?thesis by simp
    qed
  qed
next
  case (stop i g)
  then show ?case by (auto simp: refillLoop_done)
qed

lemma placeInHand_find:
  "placeInHand i t h =
     (case List.find (\<lambda>j. h ! j = None) [i..<length h] of
        Some j \<Rightarrow> (h[j := Some t], True) | None \<Rightarrow> (h, False))"
proof (induction i t h rule: placeInHand.induct)
  case (1 i t h)
  show ?case
  proof (cases "i < length h")
    case True
    then show ?thesis using 1
      by (subst placeInHand.simps) (simp add: upt_conv_Cons)
  next
    case False
    then show ?thesis by (subst placeInHand.simps) simp
  qed
qed

lemma firstEmptySlot_Some:
  "firstEmptySlot h = Some j \<longleftrightarrow> j < length h \<and> h ! j = None \<and> (\<forall>k<j. h ! k \<noteq> None)"
  unfolding firstEmptySlot_def by (auto simp: find_Some_iff)

lemma firstEmptySlot_None:
  "firstEmptySlot h = None \<longleftrightarrow> (\<forall>k<length h. h ! k \<noteq> None)"
  unfolding firstEmptySlot_def by (auto simp: find_None_iff)

lemma ensureHandSize_id: "length (playerHand g) = 6 \<Longrightarrow> ensureHandSize g = g"
  by (simp add: ensureHandSize_def)

lemma ensureHandSize_frame:
  "tileBag (ensureHandSize g) = tileBag g \<and> board (ensureHandSize g) = board g
   \<and> stagedTiles (ensureHandSize g) = stagedTiles g
   \<and> selectedHandIndex (ensureHandSize g) = selectedHandIndex g
   \<and> length (playerHand (ensureHandSize g)) = 6"
  by (simp add: ensureHandSize_def)

lemma refillLoop_empty_id: "tileBag g = [] \<Longrightarrow> refillLoop i g = g"
proof (induction i g rule: refillLoop_cases)
  case (draw i g)
  then show ?case by simp
next
  case (skip i g)
  then show ?case by (simp add: refillLoop_skip)
next
  case (stop i g)
  then show ?case by (simp add: refillLoop_done)
qed

lemma refillHand_frame:
  "board (refillHand g) = board g \<and> stagedTiles (refillHand g) = stagedTiles g
   \<and> selectedHandIndex (refillHand g) = selectedHandIndex g
   \<and> length (playerHand (refillHand g)) = 6"
  unfolding refillHand_def using refillLoop_frame [of 0 "ensureHandSize g"]
  by (simp add: ensureHandSize_frame)

lemma refillHand_count:
  "length (playerHand g) = 6 \<Longrightarrow>
   occupiedSlots (playerHand (refillHand g)) + length (tileBag (refillHand g))
     = occupiedSlots (playerHand g) + length (tileBag g)"
  unfolding refillHand_def by (simp add: ensureHandSize_id refillLoop_count)

subsection \<open>Returning staged tiles\<close>

lemma returnStaged_spec:
  "length (playerHand g) = 6 \<Longrightarrow> returnStaged t g = specReturnTile t g"
  by (simp add: returnStaged_def specReturnTile_def firstEmptySlot_def ensureHandSize_id
      placeInHand_find split: option.splits)

lemma firstEmptySlot_SomeD:
  "firstEmptySlot h = Some j \<Longrightarrow> j < length h \<and> h ! j = None"
  by (simp add: firstEmptySlot_Some)

lemma specReturnTile_frame:
  "board (specReturnTile t g) = board g \<and> stagedTiles (specReturnTile t g) = stagedTiles g
   \<and> selectedHandIndex (specReturnTile t g) = selectedHandIndex g
   \<and> length (playerHand (specReturnTile t g)) = length (playerHand g)"
  by (simp add: specReturnTile_def split: option.splits)

lemma specReturnTile_count:
  "length (tileBag (specReturnTile t g)) + occupiedSlots (playerHand (specReturnTile t g))
     = Suc (length (tileBag g) + occupiedSlots (playerHand g))"
  by (auto simp: specReturnTile_def occupiedSlots_fill split: option.splits
      dest!: firstEmptySlot_SomeD)

lemma returnAll_spec:
  "length (playerHand g) = 6 \<Longrightarrow>
   foldl (\<lambda>g' p. returnStaged (snd p) g') g st
     = foldl (\<lambda>g' t. specReturnTile t g') g (map snd st)"
proof (induction st arbitrary: g)
  case Nil
  then show ?case by simp
next
  case (Cons p st)
  have "length (playerHand (specReturnTile (snd p) g)) = 6"
    using Cons.prems by (simp add: specReturnTile_frame)
  from Cons.IH [OF this] show ?case
    using Cons.prems by (simp add: returnStaged_spec)
qed

lemma specReturnAll_frame:
  "board (foldl (\<lambda>g' t. specReturnTile t g') g ts) = board g
   \<and> length (playerHand (foldl (\<lambda>g' t. specReturnTile t g') g ts)) = length (playerHand g)
   \<and> length (tileBag (foldl (\<lambda>g' t. specReturnTile t g') g ts))
       + occupiedSlots (playerHand (foldl (\<lambda>g' t. specReturnTile t g') g ts))
     = length (tileBag g) + occupiedSlots (playerHand g) + length ts"
proof (induction ts arbitrary: g)
  case Nil
  then show ?case by simp
next
  case (Cons t ts)
  show ?case
    using Cons.IH [of "specReturnTile t g"] specReturnTile_count [of t g]
    by (simp add: specReturnTile_frame)
qed

lemma returnStaged_board: "board (returnStaged t g) = board g"
  by (simp add: returnStaged_def Let_def ensureHandSize_frame split: prod.splits)

lemma returnAll_board: "board (foldl (\<lambda>g' p. returnStaged (snd p) g') g st) = board g"
  by (induction st arbitrary: g) (simp_all add: returnStaged_board)

subsection \<open>Preservation of the invariant\<close>

lemma isOccupied_iff: "isOccupied b c \<longleftrightarrow> c \<in> mapKeys (tiles b)"
  by (simp add: isOccupied_def mapFind_None_iff)

lemma invariant_startGame: "invariant (startGame rnd)"
proof -
  let ?g = "(initTileBag rnd emptyGame)\<lparr>playerHand := replicate 6 None\<rparr>"
  have len: "length (playerHand ?g) = 6" by simp
  have bag: "length (tileBag ?g) = 108"
    using mset_eq_length [OF mset_shuffle [of rnd filledBag]]
    by (simp add: initTileBag_def length_filledBag)
  have "occupiedSlots (playerHand (refillHand ?g)) + length (tileBag (refillHand ?g)) = 108"
    using refillHand_count [OF len] bag by simp
  moreover have "board (refillHand ?g) = \<lparr>tiles = []\<rparr>" "stagedTiles (refillHand ?g) = []"
    "length (playerHand (refillHand ?g)) = 6"
    by (simp_all add: refillHand_frame initTileBag_def emptyGame_def)
  ultimately show ?thesis
    by (simp add: invariant_def startGame_def tileCount_def)
qed

lemma invariant_selectSlot: "invariant g \<Longrightarrow> selectSlot i g = Some g' \<Longrightarrow> invariant g'"
  by (auto simp: selectSlot_def invariant_def tileCount_def split: if_splits)

lemma invariant_placeAt: "invariant g \<Longrightarrow> invariant (placeAt c g)"
proof (cases "placeAt c g = g")
  case True
  then show "invariant g \<Longrightarrow> ?thesis" by simp
next
  case False
  assume inv: "invariant g"
  let ?i = "nat (selectedHandIndex g)"
  from False have sel: "?i < length (playerHand g)" "playerHand g ! ?i \<noteq> None"
    and free: "c \<notin> mapKeys (tiles (board g))" "c \<notin> mapKeys (stagedTiles g)"
    and eq: "placeAt c g = g\<lparr>stagedTiles := mapAssign c (the (playerHand g ! ?i)) (stagedTiles g),
             playerHand := (playerHand g)[?i := None], selectedHandIndex := - 1\<rparr>"
    by (auto simp: placeAt_def isOccupied_iff mapFind_None_iff split: if_splits)
  have "Suc (occupiedSlots ((playerHand g)[?i := None])) = occupiedSlots (playerHand g)"
    using sel by (rule occupiedSlots_clear)
  then show ?thesis using inv free unfolding eq
    by (simp add: invariant_def tileCount_def mapOrdered_mapAssign mapKeys_mapAssign
        length_mapAssign)
qed

lemma invariant_commitTurn: "invariant g \<Longrightarrow> invariant (commitTurn g)"
proof -
  assume inv: "invariant g"
  let ?b = "foldl (\<lambda>b p. placeTile (fst p) (snd p) b) (board g) (stagedTiles g)"
  let ?g = "g\<lparr>board := ?b, stagedTiles := []\<rparr>"
  have eq: "commitTurn g = (refillHand ?g)\<lparr>selectedHandIndex := - 1\<rparr>"
    by (simp add: commitTurn_def)
  have len: "length (playerHand ?g) = 6" using inv by (simp add: invariant_def)
  have b: "length (tiles ?b) = length (tiles (board g)) + length (stagedTiles g)"
    using inv by (simp add: invariant_def length_placeAll)
  have o: "mapOrdered (tiles ?b)"
    using inv by (simp add: invariant_def mapOrdered_placeAll)
  have c: "occupiedSlots (playerHand (refillHand ?g)) + length (tileBag (refillHand ?g))
        = occupiedSlots (playerHand g) + length (tileBag g)"
    using refillHand_count [OF len] by simp
  show ?thesis using inv b o c unfolding eq
    by (simp add: invariant_def tileCount_def refillHand_frame)
qed

lemma invariant_reset: "invariant g \<Longrightarrow> invariant (resetUnconfirmedTiles g)"
proof -
  assume inv: "invariant g"
  then have len: "length (playerHand g) = 6" by (simp add: invariant_def)
  let ?r = "foldl (\<lambda>g' t. specReturnTile t g') g (map snd (stagedTiles g))"
  have eq: "resetUnconfirmedTiles g = ?r\<lparr>stagedTiles := [], selectedHandIndex := - 1\<rparr>"
    by (simp add: resetUnconfirmedTiles_def returnAll_spec [OF len])
  show ?thesis using inv specReturnAll_frame [of g "map snd (stagedTiles g)"] unfolding eq
    by (simp add: invariant_def tileCount_def)
qed

lemma invariant_step: "invariant g \<Longrightarrow> step e g = Some g' \<Longrightarrow> invariant g'"
  by (cases e)
     (auto simp: invariant_selectSlot invariant_placeAt invariant_commitTurn invariant_reset)

lemma reachable_invariant: "reachable g \<Longrightarrow> invariant g"
  by (induction rule: reachable.induct) (auto simp: invariant_startGame intro: invariant_step)

lemma invariant_exec: "invariant g \<Longrightarrow> exec es g = Some g' \<Longrightarrow> invariant g'"
  by (induction es arbitrary: g) (auto split: option.splits intro: invariant_step)

lemma step_total: "invariant g \<Longrightarrow> \<exists>g'. step e g = Some g'"
  by (cases e) (auto simp: selectSlot_def invariant_def)

lemma exec_total: "invariant g \<Longrightarrow> \<exists>g'. exec es g = Some g'"
proof (induction es arbitrary: g)
  case Nil
  then show ?case by simp
next
  case (Cons e es)
  from step_total [OF Cons.prems] obtain g1 where s: "step e g = Some g1" by blast
  with Cons.prems have "invariant g1" by (blast intro: invariant_step)
  from Cons.IH [OF this] show ?case by (simp add: s)
qed

lemma reachable_exec: "reachable g \<Longrightarrow> exec es g = Some g' \<Longrightarrow> reachable g'"
  by (induction es arbitrary: g) (auto split: option.splits intro: reachable.step)

lemma step_board:
  assumes "invariant g" "step e g = Some g'"
  shows "(\<forall>c t. mapFind c (tiles (board g)) = Some t \<longrightarrow> mapFind c (tiles (board g')) = Some t)
         \<and> (e \<noteq> CommitTurn \<longrightarrow> board g' = board g)"
proof (cases e)
  case (SelectSlot i)
  with assms show ?thesis by (auto simp: selectSlot_def split: if_splits)
next
  case (PlaceAt c)
  with assms show ?thesis by (auto simp: placeAt_def split: if_splits)
next
  case CommitTurn
  have b: "board g' = foldl (\<lambda>b p. placeTile (fst p) (snd p) b) (board g) (stagedTiles g)"
    using assms CommitTurn by (auto simp: commitTurn_def refillHand_frame)
  have o: "mapOrdered (stagedTiles g)" and d: "mapKeys (stagedTiles g) \<inter> mapKeys (tiles (board g)) = {}"
    using assms by (simp_all add: invariant_def)
  have "mapFind c (tiles (board g')) = Some t" if "mapFind c (tiles (board g)) = Some t" for c t
  proof -
    from that have "c \<in> mapKeys (tiles (board g))"
      using mapFind_None_iff [of c "tiles (board g)"] by simp
    with d have "mapFind c (stagedTiles g) = None" by (auto simp: mapFind_None_iff)
    then show ?thesis unfolding b by (simp add: mapFind_placeAll [OF o] that)
  qed
  then show ?thesis using CommitTurn by simp
next
  case ResetTurn
  with assms show ?thesis
    by (auto simp: resetUnconfirmedTiles_def returnAll_board)
qed

lemma exec_board:
  "invariant g \<Longrightarrow> exec es g = Some g' \<Longrightarrow>
   (\<forall>c t. mapFind c (tiles (board g)) = Some t \<longrightarrow> mapFind c (tiles (board g')) = Some t)
   \<and> (CommitTurn \<notin> set es \<longrightarrow> board g' = board g)"
proof (induction es arbitrary: g)
  case Nil
  then show ?case by simp
next
  case (Cons e es)
  from Cons.prems obtain g1 where s: "step e g = Some g1" and r: "exec es g1 = Some g'"
    by (auto split: option.splits)
  have i1: "invariant g1" using Cons.prems(1) s by (rule invariant_step)
  from step_board [OF Cons.prems(1) s] Cons.IH [OF i1 r] show ?case by auto
qed

subsection \<open>Evaluation of the sample states\<close>

lemma exec_append:
  "exec (es @ es') g = (case exec es g of None \<Rightarrow> None | Some g' \<Rightarrow> exec es' g')"
  by (induction es arbitrary: g) (auto split: option.splits)

lemma sample_afterFirstTurn:
  "map_option (\<lambda>g. tiles (board g)) (exec sampleFirstTurn (startGame sampleRnd))
     = Some [((0, 0), \<lparr>shape = Circle, color = Yellow\<rparr>)]"
  by code_simp

lemma sample_afterSecondTurn:
  "map_option (\<lambda>g. (tiles (board g), stagedTiles g, occupiedSlots (playerHand g), length (tileBag g)))
       (exec (sampleFirstTurn @ sampleSecondTurn) (startGame sampleRnd))
     = Some ([((0, 0), \<lparr>shape = Circle, color = Yellow\<rparr>)],
             [((- 1, 0), \<lparr>shape = Circle, color = Orange\<rparr>), ((0, 1), \<lparr>shape = Square, color = Green\<rparr>)],
             4, 101)"
  by code_simp

lemma sample_afterSecondCommit:
  "map_option (\<lambda>g. tiles (board g))
       (exec (sampleFirstTurn @ sampleSecondTurn @ [CommitTurn]) (startGame sampleRnd))
     = Some [((- 1, 0), \<lparr>shape = Circle, color = Orange\<rparr>),
             ((0, 0), \<lparr>shape = Circle, color = Yellow\<rparr>),
             ((0, 1), \<lparr>shape = Square, color = Green\<rparr>)]"
  by code_simp

lemma lateGame_wellFormed:
  "length (playerHand lateGame) = 6 \<and> mapOrdered (stagedTiles lateGame)
   \<and> length (playerHand fullHandGame) = 6"
  by code_simp

lemma commitTurn_lateGame:
  "commitTurn lateGame =
     \<lparr>board = \<lparr>tiles = [((0, 0), \<lparr>shape = Square, color = Blue\<rparr>),
                         ((0, 1), \<lparr>shape = Circle, color = Yellow\<rparr>),
                         ((1, 0), \<lparr>shape = Clover, color = Purple\<rparr>)]\<rparr>,
      tileBag = [],
      playerHand = [Some \<lparr>shape = Diamond, color = Red\<rparr>, Some \<lparr>shape = Circle, color = Red\<rparr>,
                    Some \<lparr>shape = Clover, color = Green\<rparr>, None,
                    Some \<lparr>shape = Square, color = Red\<rparr>, Some \<lparr>shape = Circle, color = Blue\<rparr>],
      selectedHandIndex = - 1,
      stagedTiles = []\<rparr>"
  by code_simp

lemma reset_lateGame:
  "resetUnconfirmedTiles lateGame =
     \<lparr>board = \<lparr>tiles = [((0, 0), \<lparr>shape = Square, color = Blue\<rparr>)]\<rparr>,
      tileBag = [\<lparr>shape = Clover, color = Green\<rparr>, \<lparr>shape = Diamond, color = Red\<rparr>],
      playerHand = [Some \<lparr>shape = Circle, color = Yellow\<rparr>, Some \<lparr>shape = Circle, color = Red\<rparr>,
                    Some \<lparr>shape = Clover, color = Purple\<rparr>, None,
                    Some \<lparr>shape = Square, color = Red\<rparr>, Some \<lparr>shape = Circle, color = Blue\<rparr>],
      selectedHandIndex = - 1,
      stagedTiles = []\<rparr>"
  by code_simp

lemma reset_fullHandGame:
  "resetUnconfirmedTiles fullHandGame =
     \<lparr>board = \<lparr>tiles = [((0, 0), \<lparr>shape = Square, color = Blue\<rparr>)]\<rparr>,
      tileBag = [\<lparr>shape = Clover, color = Green\<rparr>, \<lparr>shape = Diamond, color = Red\<rparr>,
                 \<lparr>shape = Circle, color = Yellow\<rparr>, \<lparr>shape = Clover, color = Purple\<rparr>],
      playerHand = replicate 6 (Some \<lparr>shape = Circle, color = Red\<rparr>),
      selectedHandIndex = - 1,
      stagedTiles = []\<rparr>"
  by code_simp

lemma placeAt_lateGame:
  "placeAt (5, 5) lateGame =
     \<lparr>board = \<lparr>tiles = [((0, 0), \<lparr>shape = Square, color = Blue\<rparr>)]\<rparr>,
      tileBag = [\<lparr>shape = Clover, color = Green\<rparr>, \<lparr>shape = Diamond, color = Red\<rparr>],
      playerHand = [None, None, None, None,
                    Some \<lparr>shape = Square, color = Red\<rparr>, Some \<lparr>shape = Circle, color = Blue\<rparr>],
      selectedHandIndex = - 1,
      stagedTiles = [((0, 1), \<lparr>shape = Circle, color = Yellow\<rparr>),
                     ((1, 0), \<lparr>shape = Clover, color = Purple\<rparr>),
                     ((5, 5), \<lparr>shape = Circle, color = Red\<rparr>)]\<rparr>"
  by code_simp

section \<open>Properties of the game\<close>

text \<open>
  C1 (conservation). In every state reachable from the start of a session by clicks on
  hand slots, on board cells, on "Confirm Move" and on "Reset Hand", the number of tiles
  in the bag, plus the occupied hand slots, plus the staged tiles, plus the tiles on the
  board is 108. The two maps hold each coordinate once, so their lengths count
  coordinates.
\<close>

theorem conservation:
  "reachable g \<Longrightarrow>
   length (tileBag g) + occupiedSlots (playerHand g) + length (stagedTiles g)
     + length (tiles (board g)) = 108
   \<and> distinct (map fst (stagedTiles g)) \<and> distinct (map fst (tiles (board g)))
   \<and> length (playerHand g) = 6"
  using reachable_invariant [of g]
  by (simp add: invariant_def tileCount_def mapOrdered_distinct)

theorem conservation_witness:
  "\<exists>g. exec (sampleFirstTurn @ sampleSecondTurn) (startGame sampleRnd) = Some g
     \<and> reachable g
     \<and> length (tileBag g) = 101 \<and> occupiedSlots (playerHand g) = 4
     \<and> length (stagedTiles g) = 2 \<and> length (tiles (board g)) = 1
     \<and> length (tileBag g) + occupiedSlots (playerHand g) + length (stagedTiles g)
         + length (tiles (board g)) = 108"
proof -
  from sample_afterSecondTurn obtain g
    where e: "exec (sampleFirstTurn @ sampleSecondTurn) (startGame sampleRnd) = Some g"
      and v: "length (tileBag g) = 101" "occupiedSlots (playerHand g) = 4"
        "length (stagedTiles g) = 2" "length (tiles (board g)) = 1"
    by auto
  have r: "reachable g" by (rule reachable_exec [OF reachable.start e])
  from conservation [OF r] e r v show ?thesis by blast
qed

text \<open>
  C2 (commit). From a state with a six-slot hand, "Confirm Move" does not fail; afterwards
  a coordinate of the staging area holds its staged tile on the board and every other
  coordinate holds what it held before; the staging area is empty; nothing is selected;
  the hand still has six slots, an occupied slot keeps its tile, and either no slot is
  empty or the bag is; the tiles of hand and bag together are the same as before, the
  bag being a prefix of the old one. With nothing staged the board is unchanged.
\<close>

theorem commitTurn_post:
  assumes "length (playerHand g) = 6" and "mapOrdered (stagedTiles g)"
  shows "step CommitTurn g = Some (commitTurn g)
    \<and> (\<forall>c. mapFind c (tiles (board (commitTurn g))) =
          (case mapFind c (stagedTiles g) of Some t \<Rightarrow> Some t
           | None \<Rightarrow> mapFind c (tiles (board g))))
    \<and> stagedTiles (commitTurn g) = []
    \<and> selectedHandIndex (commitTurn g) = - 1
    \<and> length (playerHand (commitTurn g)) = 6
    \<and> (\<forall>j<6. playerHand g ! j \<noteq> None \<longrightarrow> playerHand (commitTurn g) ! j = playerHand g ! j)
    \<and> ((\<forall>j<6. playerHand (commitTurn g) ! j \<noteq> None) \<or> tileBag (commitTurn g) = [])
    \<and> mset (handTiles (playerHand (commitTurn g))) + mset (tileBag (commitTurn g))
        = mset (handTiles (playerHand g)) + mset (tileBag g)
    \<and> (\<exists>n. tileBag (commitTurn g) = take n (tileBag g))
    \<and> (stagedTiles g = [] \<longrightarrow> board (commitTurn g) = board g)"
proof -
  let ?b = "foldl (\<lambda>b p. placeTile (fst p) (snd p) b) (board g) (stagedTiles g)"
  let ?g = "g\<lparr>board := ?b, stagedTiles := []\<rparr>"
  have eq: "commitTurn g = (refillLoop 0 ?g)\<lparr>selectedHandIndex := - 1\<rparr>"
    using assms(1) by (simp add: commitTurn_def refillHand_def ensureHandSize_def)
  have fr: "board (refillLoop 0 ?g) = ?b" "stagedTiles (refillLoop 0 ?g) = []"
    "length (playerHand (refillLoop 0 ?g)) = 6"
    using refillLoop_frame [of 0 ?g] assms(1) by simp_all
  have c1: "step CommitTurn g = Some (commitTurn g)" by simp
  have c2: "\<forall>c. mapFind c (tiles (board (commitTurn g))) =
          (case mapFind c (stagedTiles g) of Some t \<Rightarrow> Some t
           | None \<Rightarrow> mapFind c (tiles (board g)))"
    unfolding eq by (simp add: fr mapFind_placeAll [OF assms(2)])
  have c3: "stagedTiles (commitTurn g) = []" unfolding eq by (simp add: fr)
  have c4: "selectedHandIndex (commitTurn g) = - 1" unfolding eq by simp
  have c5: "length (playerHand (commitTurn g)) = 6" unfolding eq by (simp add: fr)
  have c6: "\<forall>j<6. playerHand g ! j \<noteq> None \<longrightarrow> playerHand (commitTurn g) ! j = playerHand g ! j"
    unfolding eq using refillLoop_keep [of _ 0 ?g] by simp
  have c7: "(\<forall>j<6. playerHand (commitTurn g) ! j \<noteq> None) \<or> tileBag (commitTurn g) = []"
    unfolding eq using refillLoop_filled [of 0 ?g] assms(1) by simp
  have c8: "mset (handTiles (playerHand (commitTurn g))) + mset (tileBag (commitTurn g))
        = mset (handTiles (playerHand g)) + mset (tileBag g)"
    unfolding eq using refillLoop_mset [of 0 ?g] by simp
  have c9: "\<exists>n. tileBag (commitTurn g) = take n (tileBag g)"
    unfolding eq using refillLoop_prefix [of 0 ?g] by simp
  have "board (commitTurn g) = ?b" unfolding eq by (simp add: fr)
  then have c10: "stagedTiles g = [] \<longrightarrow> board (commitTurn g) = board g" by simp
  from c1 c2 c3 c4 c5 c6 c7 c8 c9 c10 show ?thesis by blast
qed

theorem commitTurn_post_witness:
  "length (playerHand lateGame) = 6 \<and> mapOrdered (stagedTiles lateGame)
   \<and> step CommitTurn lateGame = Some (commitTurn lateGame)
   \<and> (\<forall>c. mapFind c (tiles (board (commitTurn lateGame))) =
         (case mapFind c (stagedTiles lateGame) of Some t \<Rightarrow> Some t
          | None \<Rightarrow> mapFind c (tiles (board lateGame))))
   \<and> tiles (board (commitTurn lateGame)) =
        [((0, 0), \<lparr>shape = Square, color = Blue\<rparr>), ((0, 1), \<lparr>shape = Circle, color = Yellow\<rparr>),
         ((1, 0), \<lparr>shape = Clover, color = Purple\<rparr>)]
   \<and> stagedTiles (commitTurn lateGame) = []
   \<and> selectedHandIndex (commitTurn lateGame) = - 1
   \<and> playerHand (commitTurn lateGame) =
        [Some \<lparr>shape = Diamond, color = Red\<rparr>, Some \<lparr>shape = Circle, color = Red\<rparr>,
         Some \<lparr>shape = Clover, color = Green\<rparr>, None,
         Some \<lparr>shape = Square, color = Red\<rparr>, Some \<lparr>shape = Circle, color = Blue\<rparr>]
   \<and> tileBag (commitTurn lateGame) = []"
proof -
  have h: "length (playerHand lateGame) = 6" "mapOrdered (stagedTiles lateGame)"
    using lateGame_wellFormed by simp_all
  from commitTurn_post [OF h] h show ?thesis
    by (simp add: commitTurn_lateGame)
qed

text \<open>
  C3 (successful placement). With slot \<open>i\<close> selected and holding the tile \<open>T\<close>, a click on
  a cell that is neither on the board nor staged empties slot \<open>i\<close>, stages \<open>T\<close> at the
  cell, clears the selection, and leaves the board, the bag, the other slots and the
  other staged entries as they were.
\<close>

theorem placeAt_success:
  assumes "selectedHandIndex g = int i" and "i < length (playerHand g)"
    and "playerHand g ! i = Some T"
    and "\<not> isOccupied (board g) c" and "mapFind c (stagedTiles g) = None"
  shows "playerHand (placeAt c g) ! i = None
    \<and> mapFind c (stagedTiles (placeAt c g)) = Some T
    \<and> selectedHandIndex (placeAt c g) = - 1
    \<and> board (placeAt c g) = board g
    \<and> tileBag (placeAt c g) = tileBag g
    \<and> length (playerHand (placeAt c g)) = length (playerHand g)
    \<and> (\<forall>j. j \<noteq> i \<longrightarrow> playerHand (placeAt c g) ! j = playerHand g ! j)
    \<and> (\<forall>c'. c' \<noteq> c \<longrightarrow> mapFind c' (stagedTiles (placeAt c g)) = mapFind c' (stagedTiles g))
    \<and> length (stagedTiles (placeAt c g)) = Suc (length (stagedTiles g))"
  using assms
  by (simp add: placeAt_def mapFind_mapAssign length_mapAssign mapFind_None_iff [symmetric])

theorem placeAt_success_witness:
  "selectedHandIndex lateGame = int 1 \<and> 1 < length (playerHand lateGame)
   \<and> playerHand lateGame ! 1 = Some \<lparr>shape = Circle, color = Red\<rparr>
   \<and> \<not> isOccupied (board lateGame) (5, 5) \<and> mapFind (5, 5) (stagedTiles lateGame) = None
   \<and> playerHand (placeAt (5, 5) lateGame) ! 1 = None
   \<and> mapFind (5, 5) (stagedTiles (placeAt (5, 5) lateGame)) = Some \<lparr>shape = Circle, color = Red\<rparr>
   \<and> selectedHandIndex (placeAt (5, 5) lateGame) = - 1
   \<and> board (placeAt (5, 5) lateGame) = board lateGame
   \<and> tileBag (placeAt (5, 5) lateGame) = tileBag lateGame
   \<and> playerHand (placeAt (5, 5) lateGame) ! 4 = playerHand lateGame ! 4
   \<and> mapFind (0, 1) (stagedTiles (placeAt (5, 5) lateGame)) = mapFind (0, 1) (stagedTiles lateGame)
   \<and> length (stagedTiles (placeAt (5, 5) lateGame)) = 3"
proof -
  have h: "selectedHandIndex lateGame = int 1" "1 < length (playerHand lateGame)"
    "playerHand lateGame ! 1 = Some \<lparr>shape = Circle, color = Red\<rparr>"
    "\<not> isOccupied (board lateGame) (5, 5)" "mapFind (5, 5) (stagedTiles lateGame) = None"
    by (simp_all add: lateGame_def isOccupied_def)
  have l: "length (stagedTiles lateGame) = 2" by (simp add: lateGame_def)
  from placeAt_success [OF h] h l show ?thesis by simp
qed

text \<open>
  C4 (rejected placement). With slot \<open>i\<close> selected, a click on a cell that is on the board
  or already staged changes nothing: the state is the same, and slot \<open>i\<close> is still
  selected.
\<close>

theorem placeAt_rejected:
  assumes "selectedHandIndex g = int i"
    and "isOccupied (board g) c \<or> mapFind c (stagedTiles g) \<noteq> None"
  shows "placeAt c g = g \<and> selectedHandIndex (placeAt c g) = int i"
  using assms by (auto simp: placeAt_def)

theorem placeAt_rejected_witness:
  "selectedHandIndex lateGame = int 1
   \<and> isOccupied (board lateGame) (0, 0)
   \<and> placeAt (0, 0) lateGame = lateGame \<and> selectedHandIndex (placeAt (0, 0) lateGame) = int 1
   \<and> mapFind (0, 1) (stagedTiles lateGame) \<noteq> None
   \<and> placeAt (0, 1) lateGame = lateGame \<and> selectedHandIndex (placeAt (0, 1) lateGame) = int 1"
proof -
  have s: "selectedHandIndex lateGame = int 1" by (simp add: lateGame_def)
  have o: "isOccupied (board lateGame) (0, 0)" by (simp add: lateGame_def isOccupied_def)
  have t: "mapFind (0, 1) (stagedTiles lateGame) \<noteq> None" by (simp add: lateGame_def)
  from o have o': "isOccupied (board lateGame) (0, 0) \<or> mapFind (0, 0) (stagedTiles lateGame) \<noteq> None" ..
  from t have t': "isOccupied (board lateGame) (0, 1) \<or> mapFind (0, 1) (stagedTiles lateGame) \<noteq> None" ..
  from placeAt_rejected [OF s o'] placeAt_rejected [OF s t'] s o t show ?thesis by blast
qed

text \<open>
  C5 (reset). From a state with a six-slot hand, "Reset Hand" is the reset of the
  specification: taking the staged tiles in the order of the staging area, each goes into
  the lowest empty hand slot, and into the bag (at its back) when no slot is empty.
  Afterwards the staging area is empty, nothing is selected and the board is unchanged.
  \<open>firstEmptySlot_Some\<close> and \<open>firstEmptySlot_None\<close> say that \<open>firstEmptySlot\<close> is the lowest
  empty slot.
\<close>

theorem resetUnconfirmedTiles_post:
  assumes "length (playerHand g) = 6"
  shows "resetUnconfirmedTiles g = specResetTurn g
    \<and> stagedTiles (resetUnconfirmedTiles g) = []
    \<and> selectedHandIndex (resetUnconfirmedTiles g) = - 1
    \<and> board (resetUnconfirmedTiles g) = board g"
proof -
  have "resetUnconfirmedTiles g = specResetTurn g"
    using assms by (simp add: resetUnconfirmedTiles_def specResetTurn_def returnAll_spec)
  moreover have "stagedTiles (resetUnconfirmedTiles g) = []"
    and "selectedHandIndex (resetUnconfirmedTiles g) = - 1"
    by (simp_all add: resetUnconfirmedTiles_def)
  moreover have "board (resetUnconfirmedTiles g) = board g"
    by (simp add: resetUnconfirmedTiles_def returnAll_board)
  ultimately show ?thesis by blast
qed

theorem resetUnconfirmedTiles_post_witness:
  "length (playerHand lateGame) = 6
   \<and> resetUnconfirmedTiles lateGame = specResetTurn lateGame
   \<and> playerHand (specResetTurn lateGame) =
        [Some \<lparr>shape = Circle, color = Yellow\<rparr>, Some \<lparr>shape = Circle, color = Red\<rparr>,
         Some \<lparr>shape = Clover, color = Purple\<rparr>, None,
         Some \<lparr>shape = Square, color = Red\<rparr>, Some \<lparr>shape = Circle, color = Blue\<rparr>]
   \<and> tileBag (specResetTurn lateGame) = tileBag lateGame
   \<and> stagedTiles (resetUnconfirmedTiles lateGame) = []
   \<and> selectedHandIndex (resetUnconfirmedTiles lateGame) = - 1
   \<and> board (resetUnconfirmedTiles lateGame) = board lateGame
   \<and> length (playerHand fullHandGame) = 6
   \<and> resetUnconfirmedTiles fullHandGame = specResetTurn fullHandGame
   \<and> playerHand (specResetTurn fullHandGame) = playerHand fullHandGame
   \<and> tileBag (specResetTurn fullHandGame) =
        tileBag fullHandGame @ [\<lparr>shape = Circle, color = Yellow\<rparr>, \<lparr>shape = Clover, color = Purple\<rparr>]"
proof -
  have h: "length (playerHand lateGame) = 6" "length (playerHand fullHandGame) = 6"
    using lateGame_wellFormed by simp_all
  have l: "tileBag lateGame = [\<lparr>shape = Clover, color = Green\<rparr>, \<lparr>shape = Diamond, color = Red\<rparr>]"
    by (simp add: lateGame_def)
  have f: "tileBag fullHandGame = [\<lparr>shape = Clover, color = Green\<rparr>, \<lparr>shape = Diamond, color = Red\<rparr>]"
    "playerHand fullHandGame = replicate 6 (Some \<lparr>shape = Circle, color = Red\<rparr>)"
    by (simp_all add: fullHandGame_def lateGame_def)
  from resetUnconfirmedTiles_post [OF h(1)]
  have e1: "specResetTurn lateGame = resetUnconfirmedTiles lateGame"
    and r: "stagedTiles (resetUnconfirmedTiles lateGame) = []"
      "selectedHandIndex (resetUnconfirmedTiles lateGame) = - 1"
      "board (resetUnconfirmedTiles lateGame) = board lateGame"
    by metis+
  from resetUnconfirmedTiles_post [OF h(2)]
  have e2: "specResetTurn fullHandGame = resetUnconfirmedTiles fullHandGame"
    by metis
  show ?thesis unfolding e1 e2 using h r
    by (simp add: reset_lateGame reset_fullHandGame l f)
qed

text \<open>
  C6 (the board only grows). From a reachable state, after any sequence of clicks, a
  coordinate that was on the board still holds the same tile; and when "Confirm Move"
  is not among the clicks, the board is the same.
\<close>

theorem board_append_only:
  "reachable g \<Longrightarrow> exec es g = Some g' \<Longrightarrow>
   (\<forall>c t. mapFind c (tiles (board g)) = Some t \<longrightarrow> mapFind c (tiles (board g')) = Some t)
   \<and> (CommitTurn \<notin> set es \<longrightarrow> board g' = board g)"
  using exec_board [of g es g'] reachable_invariant [of g] by blast

theorem board_append_only_witness:
  "\<exists>g1 g2 g3.
     exec sampleFirstTurn (startGame sampleRnd) = Some g1 \<and> reachable g1
     \<and> exec (sampleSecondTurn @ [CommitTurn]) g1 = Some g2
     \<and> mapFind (0, 0) (tiles (board g1)) = Some \<lparr>shape = Circle, color = Yellow\<rparr>
     \<and> mapFind (0, 0) (tiles (board g2)) = Some \<lparr>shape = Circle, color = Yellow\<rparr>
     \<and> length (tiles (board g1)) = 1 \<and> length (tiles (board g2)) = 3
     \<and> exec sampleSecondTurn g1 = Some g3 \<and> CommitTurn \<notin> set sampleSecondTurn
     \<and> board g3 = board g1"
proof -
  from sample_afterFirstTurn obtain g1
    where e1: "exec sampleFirstTurn (startGame sampleRnd) = Some g1"
      and b1: "tiles (board g1) = [((0, 0), \<lparr>shape = Circle, color = Yellow\<rparr>)]"
    by auto
  from sample_afterSecondCommit e1 obtain g2
    where e2: "exec (sampleSecondTurn @ [CommitTurn]) g1 = Some g2"
      and b2: "length (tiles (board g2)) = 3"
    by (auto simp: exec_append split: option.splits)
  from e2 obtain g3 where e3: "exec sampleSecondTurn g1 = Some g3"
    by (auto simp: exec_append split: option.splits)
  have r: "reachable g1" by (rule reachable_exec [OF reachable.start e1])
  have n: "CommitTurn \<notin> set sampleSecondTurn" by (simp add: sampleSecondTurn_def)
  have f: "mapFind (0, 0) (tiles (board g1)) = Some \<lparr>shape = Circle, color = Yellow\<rparr>"
    by (simp add: b1)
  from board_append_only [OF r e2] f
  have f2: "mapFind (0, 0) (tiles (board g2)) = Some \<lparr>shape = Circle, color = Yellow\<rparr>" by blast
  from board_append_only [OF r e3] n have s: "board g3 = board g1" by blast
  have l: "length (tiles (board g1)) = 1" by (simp add: b1)
  from e1 r e2 f f2 l b2 e3 n s show ?thesis by blast
qed

text \<open>
  C7 (staged cells are free cells). In every reachable state no coordinate is both in the
  staging area and on the board.
\<close>

theorem staged_disjoint_from_board:
  "reachable g \<Longrightarrow>
   mapKeys (stagedTiles g) \<inter> mapKeys (tiles (board g)) = {}
   \<and> (\<forall>c. mapFind c (stagedTiles g) \<noteq> None \<longrightarrow> \<not> isOccupied (board g) c)"
  using reachable_invariant [of g]
  by (auto simp: invariant_def isOccupied_iff mapFind_None_iff)

theorem staged_disjoint_from_board_witness:
  "\<exists>g. exec (sampleFirstTurn @ sampleSecondTurn) (startGame sampleRnd) = Some g
     \<and> reachable g
     \<and> mapKeys (stagedTiles g) = {(- 1, 0), (0, 1)}
     \<and> mapKeys (tiles (board g)) = {(0, 0)}
     \<and> mapKeys (stagedTiles g) \<inter> mapKeys (tiles (board g)) = {}
     \<and> mapFind (0, 1) (stagedTiles g) \<noteq> None \<and> \<not> isOccupied (board g) (0, 1)"
proof -
  from sample_afterSecondTurn obtain g
    where e: "exec (sampleFirstTurn @ sampleSecondTurn) (startGame sampleRnd) = Some g"
      and b: "tiles (board g) = [((0, 0), \<lparr>shape = Circle, color = Yellow\<rparr>)]"
      and s: "stagedTiles g = [((- 1, 0), \<lparr>shape = Circle, color = Orange\<rparr>),
                               ((0, 1), \<lparr>shape = Square, color = Green\<rparr>)]"
    by auto
  have r: "reachable g" by (rule reachable_exec [OF reachable.start e])
  have k: "mapKeys (stagedTiles g) = {(- 1, 0), (0, 1)}" "mapKeys (tiles (board g)) = {(0, 0)}"
    "mapFind (0, 1) (stagedTiles g) \<noteq> None"
    by (simp_all add: b s)
  from staged_disjoint_from_board [OF r] k(3)
  have "mapKeys (stagedTiles g) \<inter> mapKeys (tiles (board g)) = {}"
    and "\<not> isOccupied (board g) (0, 1)" by blast+
  with e r k show ?thesis by blast
qed

text \<open>
  C8 (draw from an empty bag). When the bag is empty, \<open>drawTileFromBag\<close> returns the tile
  whose shape and color are the first enumerators, Circle and Red, and the bag stays
  empty; nothing signals that the bag was empty.
\<close>

theorem drawTileFromBag_empty:
  "tileBag g = [] \<Longrightarrow>
     drawTileFromBag g = (\<lparr>shape = Circle, color = Red\<rparr>, g)
     \<and> shapeValue (shape (fst (drawTileFromBag g))) = 0
     \<and> colorValue (color (fst (drawTileFromBag g))) = 0
     \<and> tileBag (snd (drawTileFromBag g)) = []"
  by (simp add: drawTileFromBag_def)

theorem drawTileFromBag_empty_witness:
  "tileBag emptyGame = []
   \<and> drawTileFromBag emptyGame = (\<lparr>shape = Circle, color = Red\<rparr>, emptyGame)
   \<and> shapeValue (shape (fst (drawTileFromBag emptyGame))) = 0
   \<and> colorValue (color (fst (drawTileFromBag emptyGame))) = 0
   \<and> tileBag (snd (drawTileFromBag emptyGame)) = []"
proof -
  have e: "tileBag emptyGame = []" by (simp add: emptyGame_def)
  from drawTileFromBag_empty [OF e] e show ?thesis by simp
qed

text \<open>
  C9 (initial composition). The bag that the three loops of \<open>initTileBag\<close> fill holds each
  of the 36 tiles three times, 108 tiles in all, and so does the bag after the shuffle,
  whatever the engine draws.
\<close>

theorem initTileBag_composition:
  "(\<forall>t. count (mset filledBag) t = 3) \<and> length filledBag = 108
   \<and> card (set filledBag) = 36
   \<and> (\<forall>t. count (mset (tileBag (initTileBag rnd g))) t = 3)
   \<and> length (tileBag (initTileBag rnd g)) = 108
   \<and> card (set (tileBag (initTileBag rnd g))) = 36"
proof -
  have m: "mset (tileBag (initTileBag rnd g)) = mset filledBag"
    by (simp add: initTileBag_def mset_shuffle)
  from m have l: "length (tileBag (initTileBag rnd g)) = length filledBag"
    by (rule mset_eq_length)
  from m have s: "set (tileBag (initTileBag rnd g)) = set filledBag"
    by (rule mset_eq_setD)
  show ?thesis unfolding m l s
    by (simp add: count_filledBag length_filledBag card_filledBag)
qed

text \<open>
  C10 (no placeholder through refill). \<open>refillHand\<close> only moves tiles from the bag to the
  hand: the tiles of hand and bag together are the same before and after, so no tile
  comes from the empty-bag branch of \<open>drawTileFromBag\<close>; with an empty bag the hand is
  left as it is.
\<close>

theorem refillHand_draws_from_bag:
  "mset (handTiles (playerHand (refillHand g))) + mset (tileBag (refillHand g))
     = mset (handTiles (playerHand (ensureHandSize g))) + mset (tileBag g)
   \<and> (tileBag g = [] \<longrightarrow> refillHand g = ensureHandSize g)"
  unfolding refillHand_def using refillLoop_mset [of 0 "ensureHandSize g"]
  by (simp add: ensureHandSize_frame refillLoop_empty_id)

theorem refillHand_draws_from_bag_witness:
  "tileBag (lateGame\<lparr>tileBag := []\<rparr>) = []
   \<and> refillHand (lateGame\<lparr>tileBag := []\<rparr>) = lateGame\<lparr>tileBag := []\<rparr>
   \<and> playerHand (refillHand (lateGame\<lparr>tileBag := []\<rparr>)) =
        [None, Some \<lparr>shape = Circle, color = Red\<rparr>, None, None,
         Some \<lparr>shape = Square, color = Red\<rparr>, Some \<lparr>shape = Circle, color = Blue\<rparr>]"
proof -
  have e: "tileBag (lateGame\<lparr>tileBag := []\<rparr>) = []" by simp
  have "ensureHandSize (lateGame\<lparr>tileBag := []\<rparr>) = lateGame\<lparr>tileBag := []\<rparr>"
    by (simp add: ensureHandSize_def lateGame_def)
  with refillHand_draws_from_bag [of "lateGame\<lparr>tileBag := []\<rparr>"] e
  have r: "refillHand (lateGame\<lparr>tileBag := []\<rparr>) = lateGame\<lparr>tileBag := []\<rparr>" by simp
  show ?thesis unfolding r by (simp add: lateGame_def)
qed

end
